theory Spec2Isabelle
  imports Main
begin

section \<open>The padded-blocks rule (lib/rules/padded-blocks.js)\<close>

subsection \<open>Tokens, nodes and the token-and-comment stream\<close>

text \<open>
  A JavaScript exception is a value of the model. The only one the rule can raise is the
  \<^verbatim>\<open>TypeError\<close> of reading a property of \<^verbatim>\<open>undefined\<close>.
\<close>

datatype error = TypeError

text \<open>
  Line and column numbers are JavaScript numbers that the rule adds to and subtracts from
  (\<^verbatim>\<open>blockEnd - 2\<close>, \<^verbatim>\<open>column - 1\<close>), so they are integers here: the
  subtraction is not truncated at zero. \<^verbatim>\<open>loc.end\<close> is the field \<open>finish\<close>.
\<close>

record position =
  line :: int
  column :: int

record source_location =
  start :: position
  finish :: position

text \<open>Everything with a place in the source: \<^verbatim>\<open>loc\<close> and the character offsets \<^verbatim>\<open>range\<close>.\<close>

record located =
  loc :: source_location
  range :: "nat \<times> nat"

record token = located +
  type :: string

text \<open>
  The two node types the rule visits. A block statement has its \<^verbatim>\<open>body\<close>, a switch
  statement its \<^verbatim>\<open>cases\<close>; the rule reads nothing of a child but its place.
\<close>

datatype node =
    BlockStatement located "located list"
  | SwitchStatement located "located list"

fun node_located :: "node \<Rightarrow> located" where
  "node_located (BlockStatement l body) = l"
| "node_located (SwitchStatement l cases) = l"

record sourceCode =
  tokensAndComments :: "token list"

subsection \<open>The token store\<close>

text \<open>
  \<^verbatim>\<open>isComment\<close>, from the rule: a comment is a token of type \<^verbatim>\<open>Line\<close> or
  \<^verbatim>\<open>Block\<close>.
\<close>

definition isComment :: "token \<Rightarrow> bool" where
  "isComment node \<longleftrightarrow> type node = ''Line'' \<or> type node = ''Block''"

text \<open>
  Tokens and comments form one sequence in source order, \<^verbatim>\<open>tokensAndComments\<close>. A
  token is handed around as its position in that sequence, and \<^verbatim>\<open>undefined\<close> is
  \<open>None\<close>. The store finds a position by searching the sequence from the front or from
  the back.
\<close>

fun first_index :: "('a \<Rightarrow> bool) \<Rightarrow> 'a list \<Rightarrow> nat option" where
  "first_index P [] = None"
| "first_index P (x # xs) = (if P x then Some 0 else map_option Suc (first_index P xs))"

fun last_index :: "('a \<Rightarrow> bool) \<Rightarrow> 'a list \<Rightarrow> nat option" where
  "last_index P [] = None"
| "last_index P (x # xs) =
     (case last_index P xs of
        Some j \<Rightarrow> Some (Suc j)
      | None \<Rightarrow> if P x then Some 0 else None)"

definition inside :: "located \<Rightarrow> token \<Rightarrow> bool" where
  "inside n t \<longleftrightarrow> fst (range n) \<le> fst (range t) \<and> snd (range t) \<le> snd (range n)"

definition ends_before :: "located \<Rightarrow> token \<Rightarrow> bool" where
  "ends_before n t \<longleftrightarrow> snd (range t) \<le> fst (range n)"

text \<open>
  Modelled from the spec: \<^verbatim>\<open>sourceCode.getFirstToken\<close> is not in the rule's file. It is
  a token navigator, one that skips comments: the node's first token is the first code
  token inside the node's range.
\<close>

definition getFirstToken :: "sourceCode \<Rightarrow> located \<Rightarrow> nat option" where
  "getFirstToken sc n =
     first_index (\<lambda>t. \<not> isComment t \<and> inside n t) (tokensAndComments sc)"

text \<open>
  Modelled from the spec: \<^verbatim>\<open>sourceCode.getLastToken\<close> is not in the rule's file. The
  node's last token is the final code token that belongs to the node's range.
\<close>

definition getLastToken :: "sourceCode \<Rightarrow> located \<Rightarrow> nat option" where
  "getLastToken sc n =
     last_index (\<lambda>t. \<not> isComment t \<and> inside n t) (tokensAndComments sc)"

text \<open>
  Modelled from the spec: \<^verbatim>\<open>sourceCode.getTokenBefore\<close> is not in the rule's file. It is
  a token navigator, as opposed to \<^verbatim>\<open>getTokenOrCommentBefore\<close>: the token before a node
  is the last code token that ends at or before the node's start.
\<close>

definition getTokenBefore :: "sourceCode \<Rightarrow> located \<Rightarrow> nat option" where
  "getTokenBefore sc n =
     last_index (\<lambda>t. \<not> isComment t \<and> ends_before n t) (tokensAndComments sc)"

text \<open>
  Modelled from the spec: \<^verbatim>\<open>sourceCode.getTokenOrCommentAfter\<close> is not in the rule's
  file. It returns the next token or comment in source order, and \<^verbatim>\<open>undefined\<close> past
  the end of the stream.
\<close>

definition getTokenOrCommentAfter :: "sourceCode \<Rightarrow> nat \<Rightarrow> nat option" where
  "getTokenOrCommentAfter sc i =
     (if Suc i < length (tokensAndComments sc) then Some (Suc i) else None)"

text \<open>
  Modelled from the spec: \<^verbatim>\<open>sourceCode.getTokenOrCommentBefore\<close> is not in the rule's
  file. It returns the previous token or comment in source order, and \<^verbatim>\<open>undefined\<close>
  before the start of the stream.
\<close>

definition getTokenOrCommentBefore :: "sourceCode \<Rightarrow> nat \<Rightarrow> nat option" where
  "getTokenOrCommentBefore sc i =
     (if 0 < i \<and> i \<le> length (tokensAndComments sc) then Some (i - 1) else None)"

text \<open>Reading a token by its handle.\<close>

definition tok :: "sourceCode \<Rightarrow> nat \<Rightarrow> token" where
  "tok sc i = tokensAndComments sc ! i"

definition startLine :: "token \<Rightarrow> int" where
  "startLine t = line (start (loc t))"

definition endLine :: "token \<Rightarrow> int" where
  "endLine t = line (finish (loc t))"

subsection \<open>The rule\<close>

text \<open>
  \<^verbatim>\<open>getOpenBrace\<close>. For a switch statement with no case, \<^verbatim>\<open>node.cases[0]\<close> is
  \<^verbatim>\<open>undefined\<close> and the store fails on reading its range.
\<close>

fun getOpenBrace :: "sourceCode \<Rightarrow> node \<Rightarrow> error + nat option" where
  "getOpenBrace sc (SwitchStatement l []) = Inl TypeError"
| "getOpenBrace sc (SwitchStatement l (c # cs)) = Inr (getTokenBefore sc c)"
| "getOpenBrace sc (BlockStatement l body) = Inr (getFirstToken sc l)"

text \<open>
  The loop of \<^verbatim>\<open>isBlockTopPadded\<close>: \<^verbatim>\<open>do first = getTokenOrCommentAfter(first)
  while (isComment(first) && first.loc.start.line === blockStart)\<close>. The body runs before
  the test, and the test reads \<^verbatim>\<open>first.type\<close>, which fails when the store returned
  \<^verbatim>\<open>undefined\<close>.
\<close>

function top_loop :: "sourceCode \<Rightarrow> int \<Rightarrow> nat \<Rightarrow> error + nat" where
  "top_loop sc blockStart first =
     (case getTokenOrCommentAfter sc first of
        None \<Rightarrow> Inl TypeError
      | Some first' \<Rightarrow>
          if isComment (tok sc first') \<and> startLine (tok sc first') = blockStart
          then top_loop sc blockStart first'
          else Inr first')"
  by pat_completeness auto
termination
  by (relation "measure (\<lambda>(sc, blockStart, first). length (tokensAndComments sc) - first)")
     (auto simp: getTokenOrCommentAfter_def split: if_splits)

declare top_loop.simps [simp del]

definition isBlockTopPadded :: "sourceCode \<Rightarrow> node \<Rightarrow> error + bool" where
  "isBlockTopPadded sc node =
     (case getOpenBrace sc node of
        Inl e \<Rightarrow> Inl e
      | Inr None \<Rightarrow> Inl TypeError
      | Inr (Some openBrace) \<Rightarrow>
          (let blockStart = startLine (tok sc openBrace);
               expectedFirstLine = blockStart + 2
           in case top_loop sc blockStart openBrace of
                Inl e \<Rightarrow> Inl e
              | Inr first \<Rightarrow>
                  (let firstLine = startLine (tok sc first)
                   in Inr (expectedFirstLine \<le> firstLine))))"

text \<open>The loop of \<^verbatim>\<open>isBlockBottomPadded\<close>, backwards from the closing token.\<close>

function bottom_loop :: "sourceCode \<Rightarrow> int \<Rightarrow> nat \<Rightarrow> error + nat" where
  "bottom_loop sc blockEnd lastTok =
     (case getTokenOrCommentBefore sc lastTok of
        None \<Rightarrow> Inl TypeError
      | Some lastTok' \<Rightarrow>
          if isComment (tok sc lastTok') \<and> endLine (tok sc lastTok') = blockEnd
          then bottom_loop sc blockEnd lastTok'
          else Inr lastTok')"
  by pat_completeness auto
termination
  by (relation "measure (\<lambda>(sc, blockEnd, lastTok). lastTok)")
     (auto simp: getTokenOrCommentBefore_def split: if_splits)

declare bottom_loop.simps [simp del]

definition isBlockBottomPadded :: "sourceCode \<Rightarrow> node \<Rightarrow> error + bool" where
  "isBlockBottomPadded sc node =
     (case getLastToken sc (node_located node) of
        None \<Rightarrow> Inl TypeError
      | Some closeBrace \<Rightarrow>
          (let blockEnd = endLine (tok sc closeBrace);
               expectedLastLine = blockEnd - 2
           in case bottom_loop sc blockEnd closeBrace of
                Inl e \<Rightarrow> Inl e
              | Inr lastTok \<Rightarrow>
                  (let lastLine = endLine (tok sc lastTok)
                   in Inr (lastLine \<le> expectedLastLine))))"

text \<open>
  The rule calls \<^verbatim>\<open>context.report\<close> in two forms, \<^verbatim>\<open>report(node, message)\<close> and
  \<^verbatim>\<open>report({node, loc, message})\<close>. A report is the call as it was made, appended to
  the reports made so far.
\<close>

datatype report =
    ReportNode node string
  | ReportDescriptor node position string

definition context_report :: "report \<Rightarrow> report list \<Rightarrow> report list" where
  "context_report r reports = reports @ [r]"

text \<open>
  Modelled from the spec: the diagnostic sink behind \<^verbatim>\<open>context.report\<close> is not in the
  rule's file. It places a report that carries no location at the node's own start, and
  a report that carries one there.
\<close>

fun report_location :: "report \<Rightarrow> position" where
  "report_location (ReportNode n m) = start (loc (node_located n))"
| "report_location (ReportDescriptor n l m) = l"

fun report_message :: "report \<Rightarrow> string" where
  "report_message (ReportNode n m) = m"
| "report_message (ReportDescriptor n l m) = m"

fun report_node :: "report \<Rightarrow> node" where
  "report_node (ReportNode n m) = n"
| "report_node (ReportDescriptor n l m) = n"

text \<open>
  The top-edge report is the one made in the first form, the bottom-edge report the one
  made with a location.
\<close>

fun top_edge :: "report \<Rightarrow> bool" where
  "top_edge (ReportNode n m) = True"
| "top_edge (ReportDescriptor n l m) = False"

fun bottom_edge :: "report \<Rightarrow> bool" where
  "bottom_edge (ReportNode n m) = False"
| "bottom_edge (ReportDescriptor n l m) = True"

text \<open>\<^verbatim>\<open>context.options[0] !== "never"\<close>; with no option, \<^verbatim>\<open>options[0]\<close> is \<^verbatim>\<open>undefined\<close>.\<close>

definition requirePadding :: "string list \<Rightarrow> bool" where
  "requirePadding options = (case options of [] \<Rightarrow> True | opt # _ \<Rightarrow> opt \<noteq> ''never'')"

definition ALWAYS_MESSAGE :: string where
  "ALWAYS_MESSAGE = ''Block must be padded by blank lines.''"

definition NEVER_MESSAGE :: string where
  "NEVER_MESSAGE = ''Block must not be padded by blank lines.''"

definition bottom_loc :: "node \<Rightarrow> position" where
  "bottom_loc node =
     \<lparr>line = line (finish (loc (node_located node))),
      column = column (finish (loc (node_located node))) - 1\<rparr>"

definition checkPadding :: "string list \<Rightarrow> sourceCode \<Rightarrow> node \<Rightarrow> report list \<Rightarrow> error + report list" where
  "checkPadding options sc node reports =
     (case isBlockTopPadded sc node of
        Inl e \<Rightarrow> Inl e
      | Inr blockHasTopPadding \<Rightarrow>
          (case isBlockBottomPadded sc node of
             Inl e \<Rightarrow> Inl e
           | Inr blockHasBottomPadding \<Rightarrow>
               (if requirePadding options then
                  (let reports1 =
                         (if \<not> blockHasTopPadding
                          then context_report (ReportNode node ALWAYS_MESSAGE) reports
                          else reports);
                       reports2 =
                         (if \<not> blockHasBottomPadding
                          then context_report
                                 (ReportDescriptor node (bottom_loc node) ALWAYS_MESSAGE) reports1
                          else reports1)
                   in Inr reports2)
                else
                  (let reports1 =
                         (if blockHasTopPadding
                          then context_report (ReportNode node NEVER_MESSAGE) reports
                          else reports);
                       reports2 =
                         (if blockHasBottomPadding
                          then context_report
                                 (ReportDescriptor node (bottom_loc node) NEVER_MESSAGE) reports1
                          else reports1)
                   in Inr reports2))))"

text \<open>
  The two visitor callbacks. The traversal calls each with a node of its own type only;
  on the other type the length of an \<^verbatim>\<open>undefined\<close> field would be read.
\<close>

fun visit_SwitchStatement ::
  "string list \<Rightarrow> sourceCode \<Rightarrow> node \<Rightarrow> report list \<Rightarrow> error + report list" where
  "visit_SwitchStatement options sc (SwitchStatement l cases) reports =
     (if length cases = 0 then Inr reports
      else checkPadding options sc (SwitchStatement l cases) reports)"
| "visit_SwitchStatement options sc (BlockStatement l body) reports = Inl TypeError"

fun visit_BlockStatement ::
  "string list \<Rightarrow> sourceCode \<Rightarrow> node \<Rightarrow> report list \<Rightarrow> error + report list" where
  "visit_BlockStatement options sc (BlockStatement l body) reports =
     (if length body = 0 then Inr reports
      else checkPadding options sc (BlockStatement l body) reports)"
| "visit_BlockStatement options sc (SwitchStatement l cases) reports = Inl TypeError"

subsection \<open>The analyzer as the specification words it\<close>

text \<open>
  The specification describes the two walks without a loop: of the tokens and comments
  after the opening delimiter, drop the comments that start on the delimiter's line; the
  first one left is compared with the delimiter's line plus 2. Symmetrically, of the
  tokens and comments before the closing token, read backwards, drop the comments that
  end on the closing token's line. Asking for a token past either end of the stream is
  the failure.
\<close>

definition spec_isTopPadded :: "sourceCode \<Rightarrow> node \<Rightarrow> error + bool" where
  "spec_isTopPadded sc node =
     (case getOpenBrace sc node of
        Inl e \<Rightarrow> Inl e
      | Inr None \<Rightarrow> Inl TypeError
      | Inr (Some opening) \<Rightarrow>
          (let openLine = startLine (tok sc opening)
           in case dropWhile (\<lambda>t. isComment t \<and> startLine t = openLine)
                     (drop (Suc opening) (tokensAndComments sc)) of
                [] \<Rightarrow> Inl TypeError
              | first # _ \<Rightarrow> Inr (openLine + 2 \<le> startLine first)))"

definition spec_isBottomPadded :: "sourceCode \<Rightarrow> node \<Rightarrow> error + bool" where
  "spec_isBottomPadded sc node =
     (case getLastToken sc (node_located node) of
        None \<Rightarrow> Inl TypeError
      | Some closing \<Rightarrow>
          (let closeLine = endLine (tok sc closing)
           in case dropWhile (\<lambda>t. isComment t \<and> endLine t = closeLine)
                     (rev (take closing (tokensAndComments sc))) of
                [] \<Rightarrow> Inl TypeError
              | reached # _ \<Rightarrow> Inr (endLine reached \<le> closeLine - 2)))"

subsection \<open>Example programs\<close>

text \<open>Tokens and nodes are written with their type, start, end and character range.\<close>

definition mk_located :: "int \<times> int \<Rightarrow> int \<times> int \<Rightarrow> nat \<times> nat \<Rightarrow> located" where
  "mk_located s e r =
     \<lparr>loc = \<lparr>start = \<lparr>line = fst s, column = snd s\<rparr>,
             finish = \<lparr>line = fst e, column = snd e\<rparr>\<rparr>,
      range = r\<rparr>"

definition mk_token :: "string \<Rightarrow> int \<times> int \<Rightarrow> int \<times> int \<Rightarrow> nat \<times> nat \<Rightarrow> token" where
  "mk_token ty s e r =
     \<lparr>loc = \<lparr>start = \<lparr>line = fst s, column = snd s\<rparr>,
             finish = \<lparr>line = fst e, column = snd e\<rparr>\<rparr>,
      range = r, type = ty\<rparr>"

text \<open>
  The block \<^verbatim>\<open>{\n    foo();\n}\<close>: brace on line 1, statement on line 2, closing brace
  on line 3.
\<close>

definition tight_block_source :: sourceCode where
  "tight_block_source =
     \<lparr>tokensAndComments =
        [mk_token ''Punctuator'' (1, 0) (1, 1) (0, 1),
         mk_token ''Identifier'' (2, 4) (2, 7) (6, 9),
         mk_token ''Punctuator'' (2, 7) (2, 8) (9, 10),
         mk_token ''Punctuator'' (2, 8) (2, 9) (10, 11),
         mk_token ''Punctuator'' (2, 9) (2, 10) (11, 12),
         mk_token ''Punctuator'' (3, 0) (3, 1) (13, 14)]\<rparr>"

definition tight_block :: node where
  "tight_block =
     BlockStatement (mk_located (1, 0) (3, 1) (0, 14)) [mk_located (2, 4) (2, 10) (6, 12)]"

text \<open>
  The block \<^verbatim>\<open>{\n    // comment\n    foo();\n}\<close>: the comment is on line 2, right
  after the brace's line.
\<close>

definition comment_block_source :: sourceCode where
  "comment_block_source =
     \<lparr>tokensAndComments =
        [mk_token ''Punctuator'' (1, 0) (1, 1) (0, 1),
         mk_token ''Line'' (2, 4) (2, 14) (6, 16),
         mk_token ''Identifier'' (3, 4) (3, 7) (21, 24),
         mk_token ''Punctuator'' (3, 7) (3, 8) (24, 25),
         mk_token ''Punctuator'' (3, 8) (3, 9) (25, 26),
         mk_token ''Punctuator'' (3, 9) (3, 10) (26, 27),
         mk_token ''Punctuator'' (4, 0) (4, 1) (28, 29)]\<rparr>"

definition comment_block :: node where
  "comment_block =
     BlockStatement (mk_located (1, 0) (4, 1) (0, 29)) [mk_located (3, 4) (3, 10) (21, 27)]"

text \<open>
  The block \<^verbatim>\<open>{\n    foo();\n\n}\<close>: no blank line after the brace, one before the
  closing brace.
\<close>

definition bottom_padded_block_source :: sourceCode where
  "bottom_padded_block_source =
     \<lparr>tokensAndComments =
        [mk_token ''Punctuator'' (1, 0) (1, 1) (0, 1),
         mk_token ''Identifier'' (2, 4) (2, 7) (6, 9),
         mk_token ''Punctuator'' (2, 7) (2, 8) (9, 10),
         mk_token ''Punctuator'' (2, 8) (2, 9) (10, 11),
         mk_token ''Punctuator'' (2, 9) (2, 10) (11, 12),
         mk_token ''Punctuator'' (4, 0) (4, 1) (14, 15)]\<rparr>"

definition bottom_padded_block :: node where
  "bottom_padded_block =
     BlockStatement (mk_located (1, 0) (4, 1) (0, 15)) [mk_located (2, 4) (2, 10) (6, 12)]"

text \<open>The switch statement \<^verbatim>\<open>switch (x) {\n\n    case 1: break;\n\n}\<close>.\<close>

definition padded_switch_source :: sourceCode where
  "padded_switch_source =
     \<lparr>tokensAndComments =
        [mk_token ''Keyword'' (1, 0) (1, 6) (0, 6),
         mk_token ''Punctuator'' (1, 7) (1, 8) (7, 8),
         mk_token ''Identifier'' (1, 8) (1, 9) (8, 9),
         mk_token ''Punctuator'' (1, 9) (1, 10) (9, 10),
         mk_token ''Punctuator'' (1, 11) (1, 12) (11, 12),
         mk_token ''Keyword'' (3, 4) (3, 8) (18, 22),
         mk_token ''Numeric'' (3, 9) (3, 10) (23, 24),
         mk_token ''Punctuator'' (3, 10) (3, 11) (24, 25),
         mk_token ''Keyword'' (3, 12) (3, 17) (26, 31),
         mk_token ''Punctuator'' (3, 17) (3, 18) (31, 32),
         mk_token ''Punctuator'' (5, 0) (5, 1) (34, 35)]\<rparr>"

definition padded_switch_case :: located where
  "padded_switch_case = mk_located (3, 4) (3, 18) (18, 32)"

definition padded_switch :: node where
  "padded_switch =
     SwitchStatement (mk_located (1, 0) (5, 1) (0, 35)) [padded_switch_case]"

text \<open>
  The switch statement \<^verbatim>\<open>switch (x) { /* c */ case 1: break; }\<close>, with a comment
  between the brace and the first case.
\<close>

definition comment_switch_source :: sourceCode where
  "comment_switch_source =
     \<lparr>tokensAndComments =
        [mk_token ''Keyword'' (1, 0) (1, 6) (0, 6),
         mk_token ''Punctuator'' (1, 7) (1, 8) (7, 8),
         mk_token ''Identifier'' (1, 8) (1, 9) (8, 9),
         mk_token ''Punctuator'' (1, 9) (1, 10) (9, 10),
         mk_token ''Punctuator'' (1, 11) (1, 12) (11, 12),
         mk_token ''Block'' (1, 13) (1, 20) (13, 20),
         mk_token ''Keyword'' (1, 21) (1, 25) (21, 25),
         mk_token ''Numeric'' (1, 26) (1, 27) (26, 27),
         mk_token ''Punctuator'' (1, 27) (1, 28) (27, 28),
         mk_token ''Keyword'' (1, 29) (1, 34) (29, 34),
         mk_token ''Punctuator'' (1, 34) (1, 35) (34, 35),
         mk_token ''Punctuator'' (1, 36) (1, 37) (36, 37)]\<rparr>"

definition comment_switch_case :: located where
  "comment_switch_case = mk_located (1, 21) (1, 35) (21, 35)"

definition comment_switch :: node where
  "comment_switch =
     SwitchStatement (mk_located (1, 0) (1, 37) (0, 37)) [comment_switch_case]"

section \<open>Verification\<close>

subsection \<open>The two loops without recursion\<close>

text \<open>
  The forward loop stops at the first position after its start whose token is not a
  comment on the block's start line; it fails when there is no such position.
\<close>

lemma top_loop_takeWhile:
  "top_loop sc b i =
     (let k = Suc i + length (takeWhile (\<lambda>t. isComment t \<and> startLine t = b)
                 (drop (Suc i) (tokensAndComments sc)))
      in if k < length (tokensAndComments sc) then Inr k else Inl TypeError)"
proof (induction sc b i rule: top_loop.induct)
  case (1 sc b i)
  let ?ts = "tokensAndComments sc"
  show ?case
  proof (cases "Suc i < length ?ts")
    case False
    then show ?thesis
      by (subst top_loop.simps) (simp add: getTokenOrCommentAfter_def)
  next
    case True
    then have d: "drop (Suc i) ?ts = ?ts ! Suc i # drop (Suc (Suc i)) ?ts"
      by (simp add: Cons_nth_drop_Suc)
    have g: "getTokenOrCommentAfter sc i = Some (Suc i)"
      using True by (simp add: getTokenOrCommentAfter_def)
    show ?thesis
    proof (cases "isComment (tok sc (Suc i)) \<and> startLine (tok sc (Suc i)) = b")
      case skip: True
      from "1.IH" [OF g skip] skip show ?thesis
        by (subst top_loop.simps) (simp add: g d tok_def Let_def)
    next
      case stop: False
      then show ?thesis
        using True by (subst top_loop.simps) (auto simp add: g d tok_def Let_def)
    qed
  qed
qed

text \<open>The backward loop, started inside the stream, mirrors it.\<close>

lemma bottom_loop_takeWhile:
  "i \<le> length (tokensAndComments sc) \<Longrightarrow>
   bottom_loop sc b i =
     (let k = length (takeWhile (\<lambda>t. isComment t \<and> endLine t = b)
                 (rev (take i (tokensAndComments sc))))
      in if k < i then Inr (i - 1 - k) else Inl TypeError)"
proof (induction sc b i rule: bottom_loop.induct)
  case (1 sc b i)
  let ?ts = "tokensAndComments sc"
  let ?P = "\<lambda>t. isComment t \<and> endLine t = b"
  show ?case
  proof (cases i)
    case 0
    then show ?thesis
      by (subst bottom_loop.simps) (simp add: getTokenOrCommentBefore_def)
  next
    case (Suc j)
    with "1.prems" have jl: "j < length ?ts" by simp
    then have d: "rev (take i ?ts) = ?ts ! j # rev (take j ?ts)"
      by (simp add: Suc take_Suc_conv_app_nth)
    have g: "getTokenOrCommentBefore sc i = Some j"
      using "1.prems" by (simp add: getTokenOrCommentBefore_def Suc)
    have step: "bottom_loop sc b i =
        (if ?P (?ts ! j) then bottom_loop sc b j else Inr j)"
      by (subst bottom_loop.simps) (simp add: g tok_def)
    show ?thesis
    proof (cases "?P (?ts ! j)")
      case skip: True
      then have skip': "isComment (tok sc j) \<and> endLine (tok sc j) = b"
        by (simp add: tok_def)
      from jl have "j \<le> length ?ts" by simp
      from "1.IH" [OF g skip' this]
      have "bottom_loop sc b j =
         (let k = length (takeWhile ?P (rev (take j ?ts)))
          in if k < j then Inr (j - 1 - k) else Inl TypeError)" .
      moreover have "takeWhile ?P (?ts ! j # rev (take j ?ts)) =
          ?ts ! j # takeWhile ?P (rev (take j ?ts))"
        using skip by simp
      ultimately show ?thesis
        unfolding step d if_P [OF skip] by (simp add: Let_def Suc)
    next
      case stop: False
      have "takeWhile ?P (?ts ! j # rev (take j ?ts)) = []"
        using stop by simp
      then show ?thesis
        unfolding step d if_not_P [OF stop] by (simp add: Suc)
    qed
  qed
qed


lemma top_loop_dropWhile:
  "(case top_loop sc b i of Inl e \<Rightarrow> Inl e | Inr first \<Rightarrow> Inr (f (tok sc first))) =
   (case dropWhile (\<lambda>t. isComment t \<and> startLine t = b)
           (drop (Suc i) (tokensAndComments sc)) of
      [] \<Rightarrow> Inl TypeError
    | first # _ \<Rightarrow> Inr (f first))"
proof -
  let ?ts = "tokensAndComments sc"
  let ?P = "\<lambda>t. isComment t \<and> startLine t = b"
  let ?k = "Suc i + length (takeWhile ?P (drop (Suc i) ?ts))"
  have dw: "dropWhile ?P (drop (Suc i) ?ts) = drop ?k ?ts"
    by (simp add: dropWhile_eq_drop add.commute)
  show ?thesis
  proof (cases "?k < length ?ts")
    case True
    then have "drop ?k ?ts = ?ts ! ?k # drop (Suc ?k) ?ts"
      by (rule Cons_nth_drop_Suc [symmetric])
    with True show ?thesis
      unfolding dw top_loop_takeWhile [of sc b i] by (simp add: Let_def tok_def)
  next
    case False
    then have "drop ?k ?ts = []" by simp
    with False show ?thesis
      unfolding dw top_loop_takeWhile [of sc b i] by (simp add: Let_def)
  qed
qed

lemma bottom_loop_dropWhile:
  assumes "i \<le> length (tokensAndComments sc)"
  shows
  "(case bottom_loop sc b i of Inl e \<Rightarrow> Inl e | Inr l \<Rightarrow> Inr (f (tok sc l))) =
   (case dropWhile (\<lambda>t. isComment t \<and> endLine t = b)
           (rev (take i (tokensAndComments sc))) of
      [] \<Rightarrow> Inl TypeError
    | reached # _ \<Rightarrow> Inr (f reached))"
proof -
  let ?ts = "tokensAndComments sc"
  let ?P = "\<lambda>t. isComment t \<and> endLine t = b"
  let ?xs = "rev (take i ?ts)"
  let ?k = "length (takeWhile ?P ?xs)"
  have len: "length ?xs = i" using assms by simp
  have dw: "dropWhile ?P ?xs = drop ?k ?xs"
    by (simp add: dropWhile_eq_drop)
  have le: "?k \<le> i" using length_takeWhile_le [of ?P ?xs] len by simp
  show ?thesis
  proof (cases "?k < i")
    case True
    then have "drop ?k ?xs = ?xs ! ?k # drop (Suc ?k) ?xs"
      using len by (simp add: Cons_nth_drop_Suc)
    moreover have "?xs ! ?k = ?ts ! (i - 1 - ?k)"
      using True assms by (simp add: rev_nth)
    ultimately show ?thesis
      using True unfolding dw bottom_loop_takeWhile [OF assms, of b]
      by (simp add: Let_def tok_def)
  next
    case False
    then have "drop ?k ?xs = []" using len by simp
    with False show ?thesis
      unfolding dw bottom_loop_takeWhile [OF assms, of b] by (simp add: Let_def)
  qed
qed

subsection \<open>The token store's searches\<close>

lemma first_index_Some:
  "first_index P xs = Some i \<Longrightarrow> i < length xs \<and> P (xs ! i) \<and> (\<forall>j<i. \<not> P (xs ! j))"
proof (induction xs arbitrary: i)
  case Nil
  then show ?case by simp
next
  case (Cons x xs)
  show ?case
  proof (cases "P x")
    case True
    with Cons.prems show ?thesis by simp
  next
    case False
    with Cons.prems obtain k where k: "first_index P xs = Some k" "i = Suc k"
      by auto
    from Cons.IH [OF k(1)] False k(2) show ?thesis
      by (auto simp: nth_Cons split: nat.splits)
  qed
qed

lemma last_index_Some:
  "last_index P xs = Some i \<Longrightarrow>
   i < length xs \<and> P (xs ! i) \<and> (\<forall>j. i < j \<and> j < length xs \<longrightarrow> \<not> P (xs ! j))"
proof (induction xs arbitrary: i)
  case Nil
  then show ?case by simp
next
  case (Cons x xs)
  show ?case
  proof (cases "last_index P xs")
    case None
    have none: "\<forall>j<length xs. \<not> P (xs ! j)"
      using None
    proof (induction xs)
      case Nil
      then show ?case by simp
    next
      case (Cons y ys)
      then show ?case
        by (auto simp: nth_Cons split: option.splits if_splits nat.splits)
    qed
    from Cons.prems None have "i = 0" "P x"
      by (auto split: if_splits)
    with none show ?thesis
      by (auto simp: nth_Cons split: nat.splits)
  next
    case (Some k)
    with Cons.prems have i: "i = Suc k" by simp
    from Cons.IH [OF Some] i show ?thesis
      by (auto simp: nth_Cons split: nat.splits)
  qed
qed

subsection \<open>The padding analyzer\<close>

text \<open>
  Claim C1. \<^verbatim>\<open>isBlockTopPadded\<close> is the specification's top-padding test: from the
  opening delimiter, walking forward over the tokens and comments and skipping every
  comment that starts on the delimiter's start line, the first token reached (a code
  token, or a comment that starts on another line) starts on the delimiter's line plus 2
  or later. The two agree on every node and stream, also where they fail.
\<close>

theorem isBlockTopPadded_refines_spec:
  "isBlockTopPadded sc node = spec_isTopPadded sc node"
proof (cases "getOpenBrace sc node")
  case (Inl e)
  then show ?thesis by (simp add: isBlockTopPadded_def spec_isTopPadded_def)
next
  case (Inr r)
  show ?thesis
  proof (cases r)
    case None
    with Inr show ?thesis by (simp add: isBlockTopPadded_def spec_isTopPadded_def)
  next
    case (Some ob)
    with Inr show ?thesis
      using top_loop_dropWhile
        [where sc = sc and i = ob and b = "startLine (tok sc ob)"
           and f = "\<lambda>t. startLine (tok sc ob) + 2 \<le> startLine t"]
      by (cases "top_loop sc (startLine (tok sc ob)) ob")
         (simp_all add: isBlockTopPadded_def spec_isTopPadded_def Let_def)
  qed
qed

text \<open>
  Claim C2. \<^verbatim>\<open>isBlockBottomPadded\<close> is the specification's bottom-padding test: from
  the node's last token, walking backward and skipping every comment that ends on the
  closing token's end line, the token reached ends on the closing token's line minus 2
  or earlier. The two agree on every node and stream, also where they fail.
\<close>

theorem isBlockBottomPadded_refines_spec:
  "isBlockBottomPadded sc node = spec_isBottomPadded sc node"
proof (cases "getLastToken sc (node_located node)")
  case None
  then show ?thesis by (simp add: isBlockBottomPadded_def spec_isBottomPadded_def)
next
  case (Some cb)
  then have "cb < length (tokensAndComments sc)"
    unfolding getLastToken_def by (blast dest: last_index_Some)
  then have "cb \<le> length (tokensAndComments sc)" by simp
  from bottom_loop_dropWhile
    [OF this, where b = "endLine (tok sc cb)"
        and f = "\<lambda>t. endLine t \<le> endLine (tok sc cb) - 2"] Some
  show ?thesis
    by (cases "bottom_loop sc (endLine (tok sc cb)) cb")
       (simp_all add: isBlockBottomPadded_def spec_isBottomPadded_def Let_def)
qed



lemma last_index_None: "last_index P xs = None \<Longrightarrow> j < length xs \<Longrightarrow> \<not> P (xs ! j)"
  by (induction xs arbitrary: j)
     (auto simp: nth_Cons split: option.splits if_splits nat.splits)

lemma last_index_iff:
  "last_index P xs = Some i \<longleftrightarrow>
   i < length xs \<and> P (xs ! i) \<and> (\<forall>j. i < j \<and> j < length xs \<longrightarrow> \<not> P (xs ! j))"
proof
  assume "last_index P xs = Some i"
  then show "i < length xs \<and> P (xs ! i) \<and> (\<forall>j. i < j \<and> j < length xs \<longrightarrow> \<not> P (xs ! j))"
    by (rule last_index_Some)
next
  assume r: "i < length xs \<and> P (xs ! i) \<and> (\<forall>j. i < j \<and> j < length xs \<longrightarrow> \<not> P (xs ! j))"
  show "last_index P xs = Some i"
  proof (cases "last_index P xs")
    case None
    from last_index_None [OF None, of i] r show ?thesis by simp
  next
    case (Some k)
    from last_index_Some [OF Some] r have "\<not> i < k" "\<not> k < i" by auto
    with Some show ?thesis by simp
  qed
qed

lemma getOpenBrace_code_token:
  assumes "getOpenBrace sc node = Inr (Some ob)"
  shows "ob < length (tokensAndComments sc) \<and> \<not> isComment (tok sc ob)"
proof (cases node)
  case (BlockStatement l body)
  with assms have "getFirstToken sc l = Some ob" by simp
  then show ?thesis
    unfolding getFirstToken_def tok_def by (blast dest: first_index_Some)
next
  case (SwitchStatement l cases)
  with assms obtain c cs where "cases = c # cs" "getTokenBefore sc c = Some ob"
    by (cases cases) auto
  then show ?thesis
    unfolding getTokenBefore_def tok_def by (blast dest: last_index_Some)
qed

lemma getLastToken_code_token:
  assumes "getLastToken sc n = Some cb"
  shows "cb < length (tokensAndComments sc) \<and> \<not> isComment (tok sc cb)"
  using assms unfolding getLastToken_def tok_def by (blast dest: last_index_Some)

lemma length_takeWhile_le_stop:
  assumes "n < length xs" "\<not> P (xs ! n)"
  shows "length (takeWhile P xs) \<le> n"
proof (rule ccontr)
  assume "\<not> length (takeWhile P xs) \<le> n"
  then have n: "n < length (takeWhile P xs)" by simp
  then have "takeWhile P xs ! n \<in> set (takeWhile P xs)" by (rule nth_mem)
  then have "P (takeWhile P xs ! n)" by (rule set_takeWhileD [THEN conjunct2])
  with n assms(2) show False by (simp add: takeWhile_nth)
qed

lemma top_loop_stops:
  assumes "i < c" "c < length (tokensAndComments sc)" "\<not> isComment (tok sc c)"
  shows "\<exists>first. top_loop sc b i = Inr first \<and> i < first \<and> first \<le> c"
proof -
  let ?ts = "tokensAndComments sc"
  let ?P = "\<lambda>t. isComment t \<and> startLine t = b"
  let ?xs = "drop (Suc i) ?ts"
  have "c - Suc i < length ?xs" using assms by simp
  moreover have "?xs ! (c - Suc i) = ?ts ! c" using assms by simp
  then have "\<not> ?P (?xs ! (c - Suc i))" using assms(3) by (simp add: tok_def)
  ultimately have "length (takeWhile ?P ?xs) \<le> c - Suc i"
    by (rule length_takeWhile_le_stop)
  then have "Suc i + length (takeWhile ?P ?xs) \<le> c" using assms(1) by simp
  with assms(2) show ?thesis
    unfolding top_loop_takeWhile [of sc b i] by (simp add: Let_def)
qed

lemma bottom_loop_stops:
  assumes "ob < i" "i < length (tokensAndComments sc)" "\<not> isComment (tok sc ob)"
  shows "\<exists>l. bottom_loop sc b i = Inr l \<and> ob \<le> l \<and> l < i"
proof -
  let ?ts = "tokensAndComments sc"
  let ?P = "\<lambda>t. isComment t \<and> endLine t = b"
  let ?xs = "rev (take i ?ts)"
  have len: "length ?xs = i" using assms by simp
  have il: "i \<le> length ?ts" using assms by simp
  have n: "i - Suc ob < length ?xs" using assms len by simp
  have "?xs ! (i - Suc ob) = ?ts ! ob"
    using assms by (simp add: rev_nth)
  then have "\<not> ?P (?xs ! (i - Suc ob))" using assms(3) by (simp add: tok_def)
  with n have "length (takeWhile ?P ?xs) \<le> i - Suc ob"
    by (rule length_takeWhile_le_stop)
  then show ?thesis
    using assms(1) unfolding bottom_loop_takeWhile [OF il, of b]
    by (auto simp add: Let_def)
qed

text \<open>
  Claim C9. For a node of the stream, one whose opening delimiter and closing token are
  both found and the opening one comes first, neither walk leaves the stream: the forward
  walk stops after the opening delimiter and at or before the closing token, the backward
  walk stops before the closing token and at or after the opening delimiter, and both
  analyzers return a value. The two delimiters are code tokens, and a code token stops
  either walk.
\<close>

theorem walks_stay_inside_node:
  assumes "getOpenBrace sc node = Inr (Some ob)"
      and "getLastToken sc (node_located node) = Some cb"
      and "ob < cb"
  shows "\<exists>first lastTok t b.
           top_loop sc (startLine (tok sc ob)) ob = Inr first \<and> ob < first \<and> first \<le> cb \<and>
           bottom_loop sc (endLine (tok sc cb)) cb = Inr lastTok \<and> ob \<le> lastTok \<and> lastTok < cb \<and>
           isBlockTopPadded sc node = Inr t \<and> isBlockBottomPadded sc node = Inr b"
proof -
  from assms(1) have o: "ob < length (tokensAndComments sc)" "\<not> isComment (tok sc ob)"
    by (simp_all add: getOpenBrace_code_token)
  from assms(2) have c: "cb < length (tokensAndComments sc)" "\<not> isComment (tok sc cb)"
    by (simp_all add: getLastToken_code_token)
  from top_loop_stops [OF assms(3) c, of "startLine (tok sc ob)"]
  obtain first where f: "top_loop sc (startLine (tok sc ob)) ob = Inr first"
    "ob < first" "first \<le> cb" by blast
  from bottom_loop_stops [OF assms(3) c(1) o(2), of "endLine (tok sc cb)"]
  obtain lastTok where l: "bottom_loop sc (endLine (tok sc cb)) cb = Inr lastTok"
    "ob \<le> lastTok" "lastTok < cb" by blast
  have "\<exists>t. isBlockTopPadded sc node = Inr t"
    using assms(1) f(1) by (simp add: isBlockTopPadded_def Let_def)
  moreover have "\<exists>b. isBlockBottomPadded sc node = Inr b"
    using assms(2) l(1) by (simp add: isBlockBottomPadded_def Let_def)
  ultimately show ?thesis using f l by blast
qed

theorem walks_stay_inside_node_witness:
  "getOpenBrace padded_switch_source padded_switch = Inr (Some 4) \<and>
   getLastToken padded_switch_source (node_located padded_switch) = Some 10 \<and>
   (4 :: nat) < 10 \<and>
   (\<exists>first lastTok t b.
      top_loop padded_switch_source (startLine (tok padded_switch_source 4)) 4 = Inr first \<and>
      4 < first \<and> first \<le> 10 \<and>
      bottom_loop padded_switch_source (endLine (tok padded_switch_source 10)) 10 = Inr lastTok \<and>
      4 \<le> lastTok \<and> lastTok < 10 \<and>
      isBlockTopPadded padded_switch_source padded_switch = Inr t \<and>
      isBlockBottomPadded padded_switch_source padded_switch = Inr b)"
proof -
  have h1: "getOpenBrace padded_switch_source padded_switch = Inr (Some 4)"
    by code_simp
  have h2: "getLastToken padded_switch_source (node_located padded_switch) = Some 10"
    by code_simp
  have h3: "(4 :: nat) < 10" by simp
  from walks_stay_inside_node [OF h1 h2 h3] h1 h2 h3 show ?thesis by blast
qed

subsection \<open>The opening delimiter\<close>

lemma first_index_None: "first_index P xs = None \<Longrightarrow> j < length xs \<Longrightarrow> \<not> P (xs ! j)"
  by (induction xs arbitrary: j)
     (auto simp: nth_Cons split: if_splits nat.splits)

lemma first_index_iff:
  "first_index P xs = Some i \<longleftrightarrow>
   i < length xs \<and> P (xs ! i) \<and> (\<forall>j<i. \<not> P (xs ! j))"
proof
  assume "first_index P xs = Some i"
  then show "i < length xs \<and> P (xs ! i) \<and> (\<forall>j<i. \<not> P (xs ! j))"
    by (rule first_index_Some)
next
  assume r: "i < length xs \<and> P (xs ! i) \<and> (\<forall>j<i. \<not> P (xs ! j))"
  show "first_index P xs = Some i"
  proof (cases "first_index P xs")
    case None
    from first_index_None [OF None, of i] r show ?thesis by simp
  next
    case (Some k)
    from first_index_Some [OF Some] r have "\<not> i < k" "\<not> k < i" by auto
    with Some show ?thesis by simp
  qed
qed

text \<open>
  Claim C5, as amended. For a block statement \<^verbatim>\<open>getOpenBrace\<close> returns the block's
  first token: the first code token inside the block's range. For a switch statement
  with a case it returns the nearest code token before the first case clause: a code
  token that ends at or before the clause's start, with nothing but comments between it
  and the clause. Comments before the clause are skipped, so the result is the element
  of the token-and-comment stream right before the clause only when that element is not
  a comment.
\<close>

theorem getOpenBrace_nearest_code_token:
  "(getOpenBrace sc (BlockStatement l body) = Inr (Some i) \<longleftrightarrow>
      i < length (tokensAndComments sc) \<and> \<not> isComment (tok sc i) \<and> inside l (tok sc i) \<and>
      (\<forall>j<i. inside l (tok sc j) \<longrightarrow> isComment (tok sc j))) \<and>
   (getOpenBrace sc (SwitchStatement l (c # cs)) = Inr (Some i) \<longleftrightarrow>
      i < length (tokensAndComments sc) \<and> \<not> isComment (tok sc i) \<and> ends_before c (tok sc i) \<and>
      (\<forall>j. i < j \<and> j < length (tokensAndComments sc) \<and> ends_before c (tok sc j)
           \<longrightarrow> isComment (tok sc j))) \<and>
   (last_index (ends_before c) (tokensAndComments sc) = Some k \<and> \<not> isComment (tok sc k)
      \<longrightarrow> getOpenBrace sc (SwitchStatement l (c # cs)) = Inr (Some k))"
proof (intro conjI impI)
  show "getOpenBrace sc (BlockStatement l body) = Inr (Some i) \<longleftrightarrow>
      i < length (tokensAndComments sc) \<and> \<not> isComment (tok sc i) \<and> inside l (tok sc i) \<and>
      (\<forall>j<i. inside l (tok sc j) \<longrightarrow> isComment (tok sc j))"
    by (auto simp: getFirstToken_def first_index_iff tok_def)
  show sw: "getOpenBrace sc (SwitchStatement l (c # cs)) = Inr (Some i) \<longleftrightarrow>
      i < length (tokensAndComments sc) \<and> \<not> isComment (tok sc i) \<and> ends_before c (tok sc i) \<and>
      (\<forall>j. i < j \<and> j < length (tokensAndComments sc) \<and> ends_before c (tok sc j)
           \<longrightarrow> isComment (tok sc j))" for i
    by (auto simp: getTokenBefore_def last_index_iff tok_def)
  assume "last_index (ends_before c) (tokensAndComments sc) = Some k \<and> \<not> isComment (tok sc k)"
  then show "getOpenBrace sc (SwitchStatement l (c # cs)) = Inr (Some k)"
    unfolding sw by (auto simp: last_index_iff tok_def)
qed

theorem getOpenBrace_nearest_code_token_witness:
  "getOpenBrace tight_block_source tight_block = Inr (Some 0) \<and>
   getOpenBrace padded_switch_source padded_switch = Inr (Some 4) \<and>
   last_index (ends_before padded_switch_case) (tokensAndComments padded_switch_source) = Some 4 \<and>
   \<not> isComment (tok padded_switch_source 4) \<and>
   ends_before padded_switch_case (tok padded_switch_source 4) \<and>
   inside (mk_located (1, 0) (3, 1) (0, 14)) (tok tight_block_source 0)"
proof -
  have b: "getOpenBrace tight_block_source
             (BlockStatement (mk_located (1, 0) (3, 1) (0, 14)) [mk_located (2, 4) (2, 10) (6, 12)])
           = Inr (Some 0)"
    by code_simp
  have l: "last_index (ends_before padded_switch_case) (tokensAndComments padded_switch_source)
           = Some 4"
    by code_simp
  have n: "\<not> isComment (tok padded_switch_source 4)"
    by code_simp
  note t1 = getOpenBrace_nearest_code_token
    [where sc = tight_block_source and l = "mk_located (1, 0) (3, 1) (0, 14)"
       and body = "[mk_located (2, 4) (2, 10) (6, 12)]" and i = 0]
  note t2 = getOpenBrace_nearest_code_token
    [where sc = padded_switch_source and l = "mk_located (1, 0) (5, 1) (0, 35)"
       and c = padded_switch_case and cs = "[]" and i = 4 and k = 4]
  from t2 l n
  have g: "getOpenBrace padded_switch_source
             (SwitchStatement (mk_located (1, 0) (5, 1) (0, 35)) [padded_switch_case])
           = Inr (Some 4)"
    by blast
  with t2 have e: "ends_before padded_switch_case (tok padded_switch_source 4)"
    by blast
  from t1 b
  have i: "inside (mk_located (1, 0) (3, 1) (0, 14)) (tok tight_block_source 0)"
    by blast
  from b g l n e i show ?thesis
    by (simp add: tight_block_def padded_switch_def)
qed

text \<open>
  In \<^verbatim>\<open>switch (x) { /* c */ case 1: break; }\<close> the element of the token-and-comment
  stream right before the first case clause is the comment, at position 5;
  \<^verbatim>\<open>getOpenBrace\<close> returns the brace, at position 4.
\<close>

theorem getOpenBrace_skips_comment_counterexample:
  "getOpenBrace comment_switch_source comment_switch = Inr (Some 4) \<and>
   last_index (ends_before comment_switch_case) (tokensAndComments comment_switch_source) = Some 5 \<and>
   getOpenBrace comment_switch_source comment_switch \<noteq>
     Inr (last_index (ends_before comment_switch_case) (tokensAndComments comment_switch_source))"
proof -
  have a: "getOpenBrace comment_switch_source comment_switch = Inr (Some 4)"
    by code_simp
  have b: "last_index (ends_before comment_switch_case) (tokensAndComments comment_switch_source)
           = Some 5"
    by code_simp
  show ?thesis unfolding a b by simp
qed


subsection \<open>The rule engine\<close>

lemma analyzers_return:
  assumes "getOpenBrace sc node = Inr (Some ob)"
      and "getLastToken sc (node_located node) = Some cb"
      and "ob < cb"
  shows "\<exists>t b. isBlockTopPadded sc node = Inr t \<and> isBlockBottomPadded sc node = Inr b"
proof -
  from assms(1) have o: "\<not> isComment (tok sc ob)"
    by (simp add: getOpenBrace_code_token)
  from assms(2) have c: "cb < length (tokensAndComments sc)" "\<not> isComment (tok sc cb)"
    by (simp_all add: getLastToken_code_token)
  from top_loop_stops [OF assms(3) c, of "startLine (tok sc ob)"]
  have "\<exists>t. isBlockTopPadded sc node = Inr t"
    using assms(1) by (auto simp: isBlockTopPadded_def Let_def)
  moreover from bottom_loop_stops [OF assms(3) c(1) o, of "endLine (tok sc cb)"]
  have "\<exists>b. isBlockBottomPadded sc node = Inr b"
    using assms(2) by (auto simp: isBlockBottomPadded_def Let_def)
  ultimately show ?thesis by blast
qed

lemma checkPadding_emits:
  assumes "isBlockTopPadded sc node = Inr t" and "isBlockBottomPadded sc node = Inr b"
  shows "checkPadding options sc node reports =
     Inr (reports @
       (if requirePadding options
        then (if \<not> t then [ReportNode node ALWAYS_MESSAGE] else []) @
             (if \<not> b then [ReportDescriptor node (bottom_loc node) ALWAYS_MESSAGE] else [])
        else (if t then [ReportNode node NEVER_MESSAGE] else []) @
             (if b then [ReportDescriptor node (bottom_loc node) NEVER_MESSAGE] else [])))"
  using assms by (simp add: checkPadding_def context_report_def Let_def)

lemma checkPadding_analyzed:
  assumes "checkPadding options sc node reports = Inr reports'"
  shows "\<exists>t b. isBlockTopPadded sc node = Inr t \<and> isBlockBottomPadded sc node = Inr b"
  using assms by (auto simp: checkPadding_def split: sum.splits)

text \<open>
  Claim C3. For a node that both analyzers return a value for, \<^verbatim>\<open>checkPadding\<close>
  makes a top-edge report exactly when padding is required and the top is not padded, or
  padding is forbidden and the top is padded; a bottom-edge report under the same
  condition on the bottom. Every report made when padding is required carries the message
  "Block must be padded by blank lines.", every report made when it is forbidden carries
  "Block must not be padded by blank lines.", on both edges.
\<close>

theorem checkPadding_reports_by_policy:
  assumes "isBlockTopPadded sc node = Inr t" and "isBlockBottomPadded sc node = Inr b"
  shows "\<exists>out. checkPadding options sc node reports = Inr (reports @ out) \<and>
     ((\<exists>d\<in>set out. top_edge d) \<longleftrightarrow>
        (requirePadding options \<and> \<not> t) \<or> (\<not> requirePadding options \<and> t)) \<and>
     ((\<exists>d\<in>set out. bottom_edge d) \<longleftrightarrow>
        (requirePadding options \<and> \<not> b) \<or> (\<not> requirePadding options \<and> b)) \<and>
     (\<forall>d\<in>set out. report_message d =
        (if requirePadding options then ''Block must be padded by blank lines.''
         else ''Block must not be padded by blank lines.''))"
  unfolding checkPadding_emits [OF assms]
  by (cases "requirePadding options"; cases t; cases b)
     (simp_all add: ALWAYS_MESSAGE_def NEVER_MESSAGE_def)

theorem checkPadding_reports_by_policy_witness:
  "isBlockTopPadded tight_block_source tight_block = Inr False \<and>
   isBlockBottomPadded tight_block_source tight_block = Inr False \<and>
   requirePadding [] \<and>
   (\<exists>out. checkPadding [] tight_block_source tight_block [] = Inr out \<and>
      (\<exists>d\<in>set out. top_edge d) \<and> (\<exists>d\<in>set out. bottom_edge d) \<and>
      (\<forall>d\<in>set out. report_message d = ''Block must be padded by blank lines.'')) \<and>
   isBlockTopPadded padded_switch_source padded_switch = Inr True \<and>
   isBlockBottomPadded padded_switch_source padded_switch = Inr True \<and>
   \<not> requirePadding [''never''] \<and>
   (\<exists>out. checkPadding [''never''] padded_switch_source padded_switch [] = Inr out \<and>
      (\<exists>d\<in>set out. top_edge d) \<and> (\<exists>d\<in>set out. bottom_edge d) \<and>
      (\<forall>d\<in>set out. report_message d = ''Block must not be padded by blank lines.''))"
proof -
  have a1: "isBlockTopPadded tight_block_source tight_block = Inr False" by code_simp
  have a2: "isBlockBottomPadded tight_block_source tight_block = Inr False" by code_simp
  have a3: "requirePadding []" by (simp add: requirePadding_def)
  have n1: "isBlockTopPadded padded_switch_source padded_switch = Inr True" by code_simp
  have n2: "isBlockBottomPadded padded_switch_source padded_switch = Inr True" by code_simp
  have n3: "\<not> requirePadding [''never'']" by (simp add: requirePadding_def)
  from checkPadding_reports_by_policy [OF a1 a2, of "[]" "[]"] a3
  have a: "\<exists>out. checkPadding [] tight_block_source tight_block [] = Inr out \<and>
      (\<exists>d\<in>set out. top_edge d) \<and> (\<exists>d\<in>set out. bottom_edge d) \<and>
      (\<forall>d\<in>set out. report_message d = ''Block must be padded by blank lines.'')"
    by simp
  from checkPadding_reports_by_policy [OF n1 n2, of "[''never'']" "[]"] n3
  have n: "\<exists>out. checkPadding [''never''] padded_switch_source padded_switch [] = Inr out \<and>
      (\<exists>d\<in>set out. top_edge d) \<and> (\<exists>d\<in>set out. bottom_edge d) \<and>
      (\<forall>d\<in>set out. report_message d = ''Block must not be padded by blank lines.'')"
    by simp
  from a1 a2 a3 a n1 n2 n3 n show ?thesis by (intro conjI)
qed

text \<open>
  Claim C4. For a block statement with an empty body and for a switch statement with no
  case the visitor returns the reports it was given, whatever the option is.
\<close>

theorem empty_nodes_never_reported:
  "visit_BlockStatement options sc (BlockStatement l []) reports = Inr reports \<and>
   visit_SwitchStatement options sc (SwitchStatement l' []) reports = Inr reports"
  by simp

text \<open>
  Claim C6. \<^verbatim>\<open>checkPadding\<close> adds at most two reports for a node, at most one on each
  edge. Whether it makes the top-edge report depends on the option and on
  \<^verbatim>\<open>isBlockTopPadded\<close> only: two nodes analyzed under the same option with the same
  top-padding result get the top-edge report both or neither, whatever their bottom
  padding is; and symmetrically for the bottom edge.
\<close>

theorem checkPadding_edges_independent:
  assumes "checkPadding options sc node reports = Inr reports'"
      and "checkPadding options sc' node' rs = Inr rs'"
  shows "\<exists>out out'. reports' = reports @ out \<and> rs' = rs @ out' \<and>
     length out \<le> 2 \<and> length (filter top_edge out) \<le> 1 \<and>
     length (filter bottom_edge out) \<le> 1 \<and>
     (isBlockTopPadded sc node = isBlockTopPadded sc' node' \<longrightarrow>
        ((\<exists>d\<in>set out. top_edge d) \<longleftrightarrow> (\<exists>d\<in>set out'. top_edge d))) \<and>
     (isBlockBottomPadded sc node = isBlockBottomPadded sc' node' \<longrightarrow>
        ((\<exists>d\<in>set out. bottom_edge d) \<longleftrightarrow> (\<exists>d\<in>set out'. bottom_edge d)))"
proof -
  from checkPadding_analyzed [OF assms(1)] obtain t b
    where tb: "isBlockTopPadded sc node = Inr t" "isBlockBottomPadded sc node = Inr b"
    by blast
  from checkPadding_analyzed [OF assms(2)] obtain t' b'
    where tb': "isBlockTopPadded sc' node' = Inr t'" "isBlockBottomPadded sc' node' = Inr b'"
    by blast
  note e = assms(1) [unfolded checkPadding_emits [OF tb]]
  note e' = assms(2) [unfolded checkPadding_emits [OF tb']]
  show ?thesis
    using e e' tb tb'
    by (cases "requirePadding options"; cases t; cases b; cases t'; cases b') auto
qed

theorem checkPadding_edges_independent_witness:
  "checkPadding [] tight_block_source tight_block [] =
     Inr [ReportNode tight_block ALWAYS_MESSAGE,
          ReportDescriptor tight_block \<lparr>line = 3, column = 0\<rparr> ALWAYS_MESSAGE] \<and>
   checkPadding [] bottom_padded_block_source bottom_padded_block [] =
     Inr [ReportNode bottom_padded_block ALWAYS_MESSAGE] \<and>
   isBlockTopPadded tight_block_source tight_block =
     isBlockTopPadded bottom_padded_block_source bottom_padded_block \<and>
   isBlockBottomPadded tight_block_source tight_block \<noteq>
     isBlockBottomPadded bottom_padded_block_source bottom_padded_block \<and>
   (\<exists>out out'.
      [ReportNode tight_block ALWAYS_MESSAGE,
       ReportDescriptor tight_block \<lparr>line = 3, column = 0\<rparr> ALWAYS_MESSAGE] = out \<and>
      [ReportNode bottom_padded_block ALWAYS_MESSAGE] = out' \<and>
      length out \<le> 2 \<and> length (filter top_edge out) \<le> 1 \<and>
      length (filter bottom_edge out) \<le> 1 \<and>
      (\<exists>d\<in>set out. top_edge d) = (\<exists>d\<in>set out'. top_edge d))"
proof -
  have h1: "checkPadding [] tight_block_source tight_block [] =
     Inr [ReportNode tight_block ALWAYS_MESSAGE,
          ReportDescriptor tight_block \<lparr>line = 3, column = 0\<rparr> ALWAYS_MESSAGE]"
    by code_simp
  have h2: "checkPadding [] bottom_padded_block_source bottom_padded_block [] =
     Inr [ReportNode bottom_padded_block ALWAYS_MESSAGE]"
    by code_simp
  have t: "isBlockTopPadded tight_block_source tight_block =
     isBlockTopPadded bottom_padded_block_source bottom_padded_block"
    by code_simp
  have b: "isBlockBottomPadded tight_block_source tight_block \<noteq>
     isBlockBottomPadded bottom_padded_block_source bottom_padded_block"
    by code_simp
  from checkPadding_edges_independent [OF h1 h2] t
  have "\<exists>out out'.
      [ReportNode tight_block ALWAYS_MESSAGE,
       ReportDescriptor tight_block \<lparr>line = 3, column = 0\<rparr> ALWAYS_MESSAGE] = out \<and>
      [ReportNode bottom_padded_block ALWAYS_MESSAGE] = out' \<and>
      length out \<le> 2 \<and> length (filter top_edge out) \<le> 1 \<and>
      length (filter bottom_edge out) \<le> 1 \<and>
      (\<exists>d\<in>set out. top_edge d) = (\<exists>d\<in>set out'. top_edge d)"
    by simp
  with h1 h2 t b show ?thesis by (intro conjI)
qed

text \<open>
  Claim C7. Every report is about the node. A bottom-edge report is located at the line
  of the node's end and the column of the node's end minus 1; where the node ends with
  its closing token, that is the closing token's end line and its end column minus 1. A
  top-edge report is located at the node's own start.
\<close>

theorem checkPadding_report_locations:
  assumes "checkPadding options sc node reports = Inr reports'"
  shows "\<exists>out. reports' = reports @ out \<and>
     (\<forall>d\<in>set out.
        report_node d = node \<and>
        (bottom_edge d \<longrightarrow>
           report_location d =
             \<lparr>line = line (finish (loc (node_located node))),
              column = column (finish (loc (node_located node))) - 1\<rparr> \<and>
           (\<forall>cb. getLastToken sc (node_located node) = Some cb \<and>
                 finish (loc (tok sc cb)) = finish (loc (node_located node)) \<longrightarrow>
                 report_location d =
                   \<lparr>line = endLine (tok sc cb),
                    column = column (finish (loc (tok sc cb))) - 1\<rparr>)) \<and>
        (top_edge d \<longrightarrow> report_location d = start (loc (node_located node))))"
proof -
  from checkPadding_analyzed [OF assms] obtain t b
    where tb: "isBlockTopPadded sc node = Inr t" "isBlockBottomPadded sc node = Inr b"
    by blast
  note e = assms [unfolded checkPadding_emits [OF tb]]
  show ?thesis
    using e
    by (cases "requirePadding options"; cases t; cases b)
       (auto simp: bottom_loc_def endLine_def)
qed

theorem checkPadding_report_locations_witness:
  "checkPadding [] tight_block_source tight_block [] =
     Inr [ReportNode tight_block ALWAYS_MESSAGE,
          ReportDescriptor tight_block \<lparr>line = 3, column = 0\<rparr> ALWAYS_MESSAGE] \<and>
   getLastToken tight_block_source (node_located tight_block) = Some 5 \<and>
   finish (loc (tok tight_block_source 5)) = finish (loc (node_located tight_block)) \<and>
   report_location (ReportNode tight_block ALWAYS_MESSAGE) = \<lparr>line = 1, column = 0\<rparr> \<and>
   report_location (ReportDescriptor tight_block \<lparr>line = 3, column = 0\<rparr> ALWAYS_MESSAGE) =
     \<lparr>line = endLine (tok tight_block_source 5),
      column = column (finish (loc (tok tight_block_source 5))) - 1\<rparr> \<and>
   start (loc (node_located tight_block)) = \<lparr>line = 1, column = 0\<rparr>"
proof -
  let ?top = "ReportNode tight_block ALWAYS_MESSAGE"
  let ?bottom = "ReportDescriptor tight_block \<lparr>line = 3, column = 0\<rparr> ALWAYS_MESSAGE"
  have h: "checkPadding [] tight_block_source tight_block [] = Inr [?top, ?bottom]"
    by code_simp
  have c: "getLastToken tight_block_source (node_located tight_block) = Some 5"
    by code_simp
  have f: "finish (loc (tok tight_block_source 5)) = finish (loc (node_located tight_block))"
    by code_simp
  have s: "start (loc (node_located tight_block)) = \<lparr>line = 1, column = 0\<rparr>"
    by code_simp
  from checkPadding_report_locations [OF h]
  have all: "\<forall>d\<in>set [?top, ?bottom].
        report_node d = tight_block \<and>
        (bottom_edge d \<longrightarrow>
           report_location d =
             \<lparr>line = line (finish (loc (node_located tight_block))),
              column = column (finish (loc (node_located tight_block))) - 1\<rparr> \<and>
           (\<forall>cb. getLastToken tight_block_source (node_located tight_block) = Some cb \<and>
                 finish (loc (tok tight_block_source cb)) = finish (loc (node_located tight_block)) \<longrightarrow>
                 report_location d =
                   \<lparr>line = endLine (tok tight_block_source cb),
                    column = column (finish (loc (tok tight_block_source cb))) - 1\<rparr>)) \<and>
        (top_edge d \<longrightarrow> report_location d = start (loc (node_located tight_block)))"
    by simp
  from all have "report_location ?top = start (loc (node_located tight_block))"
    by simp
  with s have t: "report_location ?top = \<lparr>line = 1, column = 0\<rparr>" by simp
  from all c f have b: "report_location ?bottom =
     \<lparr>line = endLine (tok tight_block_source 5),
      column = column (finish (loc (tok tight_block_source 5))) - 1\<rparr>"
    by simp
  from h c f t b s show ?thesis by (intro conjI)
qed

text \<open>
  Claim C10. Among the reports \<^verbatim>\<open>checkPadding\<close> adds for a node, every top-edge
  report comes before every bottom-edge report.
\<close>

theorem checkPadding_top_before_bottom:
  assumes "checkPadding options sc node reports = Inr reports'"
  shows "\<exists>out. reports' = reports @ out \<and>
     (\<forall>i j. i < length out \<and> j < length out \<and> top_edge (out ! i) \<and> bottom_edge (out ! j)
        \<longrightarrow> i < j)"
proof -
  from checkPadding_analyzed [OF assms] obtain t b
    where tb: "isBlockTopPadded sc node = Inr t" "isBlockBottomPadded sc node = Inr b"
    by blast
  note e = assms [unfolded checkPadding_emits [OF tb]]
  show ?thesis
    using e
    by (cases "requirePadding options"; cases t; cases b)
       (auto simp: nth_Cons less_Suc_eq split: nat.splits)
qed

theorem checkPadding_top_before_bottom_witness:
  "checkPadding [] tight_block_source tight_block [] =
     Inr [ReportNode tight_block ALWAYS_MESSAGE,
          ReportDescriptor tight_block \<lparr>line = 3, column = 0\<rparr> ALWAYS_MESSAGE] \<and>
   top_edge ([ReportNode tight_block ALWAYS_MESSAGE,
              ReportDescriptor tight_block \<lparr>line = 3, column = 0\<rparr> ALWAYS_MESSAGE] ! 0) \<and>
   bottom_edge ([ReportNode tight_block ALWAYS_MESSAGE,
              ReportDescriptor tight_block \<lparr>line = 3, column = 0\<rparr> ALWAYS_MESSAGE] ! 1) \<and>
   (0 :: nat) < 1"
proof -
  let ?out = "[ReportNode tight_block ALWAYS_MESSAGE,
          ReportDescriptor tight_block \<lparr>line = 3, column = 0\<rparr> ALWAYS_MESSAGE]"
  have h: "checkPadding [] tight_block_source tight_block [] = Inr ?out"
    by code_simp
  from checkPadding_top_before_bottom [OF h]
  obtain out where o: "?out = [] @ out"
    and all: "\<forall>i j. i < length out \<and> j < length out \<and> top_edge (out ! i) \<and>
       bottom_edge (out ! j) \<longrightarrow> i < j"
    by blast
  from o have out: "out = ?out" by simp
  have t: "top_edge (?out ! 0)" by simp
  have b: "bottom_edge (?out ! 1)" by simp
  from all have "0 < length out \<and> 1 < length out \<and> top_edge (out ! 0) \<and>
       bottom_edge (out ! 1) \<longrightarrow> (0 :: nat) < 1"
    by blast
  with t b have "(0 :: nat) < 1" unfolding out by simp
  with h t b show ?thesis by (intro conjI)
qed

text \<open>
  Claim C8. For a block statement whose opening brace starts on line 1 and is followed in
  the stream by a comment that starts on line 2, with padding required, the top is not
  padded (the comment is the first token reached, one line below the brace) and the
  visitor, called on the block with its statement, adds the top-edge report first.
\<close>

theorem comment_on_next_line_is_reported:
  assumes "getFirstToken sc l = Some ob"
      and "getLastToken sc l = Some cb"
      and "ob < cb"
      and "startLine (tok sc ob) = 1"
      and "isComment (tok sc (Suc ob))"
      and "startLine (tok sc (Suc ob)) = 2"
      and "body \<noteq> []"
      and "requirePadding options"
  shows "isBlockTopPadded sc (BlockStatement l body) = Inr False \<and>
     (\<exists>out. visit_BlockStatement options sc (BlockStatement l body) reports =
        Inr (reports @ ReportNode (BlockStatement l body) ALWAYS_MESSAGE # out))"
proof -
  let ?node = "BlockStatement l body"
  have ob: "getOpenBrace sc ?node = Inr (Some ob)" using assms(1) by simp
  from assms(2) have cb: "cb < length (tokensAndComments sc)"
    by (simp add: getLastToken_code_token)
  with assms(3) have next_tok: "getTokenOrCommentAfter sc ob = Some (Suc ob)"
    by (simp add: getTokenOrCommentAfter_def)
  have "top_loop sc 1 ob = Inr (Suc ob)"
    using next_tok assms(5,6) by (subst top_loop.simps) simp
  then have top: "isBlockTopPadded sc ?node = Inr False"
    using ob assms(4,6) by (simp add: isBlockTopPadded_def Let_def)
  from analyzers_return [OF ob _ assms(3)] assms(2)
  obtain b where bottom: "isBlockBottomPadded sc ?node = Inr b" by auto
  have "visit_BlockStatement options sc ?node reports = checkPadding options sc ?node reports"
    using assms(7) by simp
  then show ?thesis
    using top assms(8) unfolding checkPadding_emits [OF top bottom] by simp
qed

theorem comment_on_next_line_is_reported_witness:
  "getFirstToken comment_block_source (mk_located (1, 0) (4, 1) (0, 29)) = Some 0 \<and>
   getLastToken comment_block_source (mk_located (1, 0) (4, 1) (0, 29)) = Some 6 \<and>
   (0 :: nat) < 6 \<and>
   startLine (tok comment_block_source 0) = 1 \<and>
   isComment (tok comment_block_source (Suc 0)) \<and>
   startLine (tok comment_block_source (Suc 0)) = 2 \<and>
   [mk_located (3, 4) (3, 10) (21, 27)] \<noteq> [] \<and>
   requirePadding [] \<and>
   isBlockTopPadded comment_block_source comment_block = Inr False \<and>
   (\<exists>out. visit_BlockStatement [] comment_block_source comment_block [] =
      Inr ([] @ ReportNode comment_block ALWAYS_MESSAGE # out))"
proof -
  let ?l = "mk_located (1, 0) (4, 1) (0, 29)"
  have h1: "getFirstToken comment_block_source ?l = Some 0" by code_simp
  have h2: "getLastToken comment_block_source ?l = Some 6" by code_simp
  have h3: "(0 :: nat) < 6" by simp
  have h4: "startLine (tok comment_block_source 0) = 1" by code_simp
  have h5: "isComment (tok comment_block_source (Suc 0))" by code_simp
  have h6: "startLine (tok comment_block_source (Suc 0)) = 2" by code_simp
  have h7: "[mk_located (3, 4) (3, 10) (21, 27)] \<noteq> []" by simp
  have h8: "requirePadding []" by (simp add: requirePadding_def)
  from comment_on_next_line_is_reported [OF h1 h2 h3 h4 h5 h6 h7 h8, of "[]"]
  have "isBlockTopPadded comment_block_source comment_block = Inr False \<and>
   (\<exists>out. visit_BlockStatement [] comment_block_source comment_block [] =
      Inr ([] @ ReportNode comment_block ALWAYS_MESSAGE # out))"
    unfolding comment_block_def .
  with h1 h2 h3 h4 h5 h6 h7 h8 show ?thesis by (intro conjI) blast+
qed

end
